theory Spec2Isabelle
  imports Complex_Main
begin

section \<open>Gaussian elimination without pivoting (Labo 5, elim\_gaussiana.py)\<close>

text \<open>
  The program factors a square matrix into a unit lower triangular \<open>L\<close> and an upper
  triangular \<open>U\<close> by Gaussian elimination without pivoting, on a private copy of its
  argument, and counts the arithmetic operations it performs.

  The entries of the arrays are doubles. The model takes them from a type \<open>'a\<close> that
  carries \<open>0\<close>, \<open>1\<close>, \<open>+\<close>, \<open>-\<close>, \<open>*\<close> and \<open>/\<close> with no law attached (the sort
  \<open>{zero,one,plus,minus,times,inverse}\<close> has no axioms): what is proved at that sort
  holds for every arithmetic, and in particular does not depend on what a division by
  zero yields. Three instances are used: a field, for the identity \<open>L @ U = A\<close>, which
  is one of exact arithmetic (rounding is not part of the model); the rationals, to run
  the program on concrete matrices; and the type \<open>ieee\<close> below, which adds the
  infinities and NaN that a division by zero produces.
\<close>

subsection \<open>Arrays and the store\<close>

text \<open>
  A two-dimensional numpy array: its shape and its rows. numpy keeps every row of length
  \<open>shape1\<close> and has \<open>shape0\<close> rows (\<open>wf_array\<close>).
\<close>

record 'a ndarray =
  shape0 :: nat
  shape1 :: nat
  rows :: "'a list list"

definition wf_array :: "'a ndarray \<Rightarrow> bool" where
  "wf_array M \<longleftrightarrow>
     length (rows M) = shape0 M \<and> list_all (\<lambda>r. length r = shape1 M) (rows M)"

text \<open>
  Arrays are objects: a variable holds a reference. The store is the list of the arrays
  allocated so far, a reference is an index into it. The program also prints, so the
  state holds the lines written to standard output.
\<close>

type_synonym 'a heap = "'a ndarray list"

record 'a state =
  heap :: "'a heap"
  stdout :: "string list"

text \<open>
  \<open>M[r][c]\<close> and \<open>M[r][c] = v\<close> through the reference \<open>p\<close>. The loops of
  \<open>elim_gaussiana\<close> run only when the array is square and index it with \<open>i\<close>, \<open>j\<close>
  and \<open>k\<close> below its order, so none of their accesses is out of range.
\<close>

definition getitem :: "'a heap \<Rightarrow> nat \<Rightarrow> nat \<Rightarrow> nat \<Rightarrow> 'a" where
  "getitem h p r c = rows (h ! p) ! r ! c"

definition setitem :: "'a heap \<Rightarrow> nat \<Rightarrow> nat \<Rightarrow> nat \<Rightarrow> 'a \<Rightarrow> 'a heap" where
  "setitem h p r c v =
     h[p := (h ! p)\<lparr>rows := (rows (h ! p))[r := (rows (h ! p) ! r)[c := v]]\<rparr>]"

text \<open>\<open>A.copy()\<close>: a new object with the contents of \<open>A\<close>; returns its reference.\<close>

definition copy :: "'a heap \<Rightarrow> nat \<Rightarrow> nat \<times> 'a heap" where
  "copy h A = (length h, h @ [h ! A])"

subsection \<open>The numpy constructors the program calls\<close>

text \<open>
  \<open>np.tril(M, k)\<close> keeps the entries with \<open>c \<le> r + k\<close> and writes zero elsewhere;
  \<open>np.triu(M, k)\<close> keeps those with \<open>r + k \<le> c\<close>. Both build a new array by selection,
  with no arithmetic on the entries.
\<close>

definition tril :: "'a::zero ndarray \<Rightarrow> int \<Rightarrow> 'a ndarray" where
  "tril M k = \<lparr>shape0 = shape0 M, shape1 = shape1 M,
     rows = map (\<lambda>r. map (\<lambda>c. if int c \<le> int r + k then rows M ! r ! c else 0)
                        [0..<shape1 M]) [0..<shape0 M]\<rparr>"

definition triu :: "'a::zero ndarray \<Rightarrow> int \<Rightarrow> 'a ndarray" where
  "triu M k = \<lparr>shape0 = shape0 M, shape1 = shape1 M,
     rows = map (\<lambda>r. map (\<lambda>c. if int r + k \<le> int c then rows M ! r ! c else 0)
                        [0..<shape1 M]) [0..<shape0 M]\<rparr>"

definition eye :: "nat \<Rightarrow> 'a::{zero,one} ndarray" where
  "eye N = \<lparr>shape0 = N, shape1 = N,
     rows = map (\<lambda>r. map (\<lambda>c. if r = c then 1 else 0) [0..<N]) [0..<N]\<rparr>"

definition ones :: "nat \<Rightarrow> nat \<Rightarrow> 'a::one ndarray" where
  "ones N M = \<lparr>shape0 = N, shape1 = M, rows = replicate N (replicate M 1)\<rparr>"

text \<open>Elementwise \<open>+\<close> and \<open>-\<close> of two arrays of the same shape.\<close>

definition mat_add :: "'a::plus ndarray \<Rightarrow> 'a ndarray \<Rightarrow> 'a ndarray" where
  "mat_add X Y = \<lparr>shape0 = shape0 X, shape1 = shape1 X,
     rows = map2 (map2 (+)) (rows X) (rows Y)\<rparr>"

definition mat_sub :: "'a::minus ndarray \<Rightarrow> 'a ndarray \<Rightarrow> 'a ndarray" where
  "mat_sub X Y = \<lparr>shape0 = shape0 X, shape1 = shape1 X,
     rows = map2 (map2 (-)) (rows X) (rows Y)\<rparr>"

subsection \<open>\<open>elim_gaussiana\<close>\<close>

text \<open>
  The three nested loops, innermost first. Each body takes the store and the counter
  \<open>cant_op\<close> and returns them updated; \<open>Ac\<close> is the reference of the working copy.
  \<open>range(a, b)\<close> is the list \<open>[a..<b]\<close>.
\<close>

fun body_k :: "nat \<Rightarrow> nat \<Rightarrow> nat \<Rightarrow> 'a::{minus,times} \<Rightarrow> nat \<Rightarrow> 'a heap \<times> nat
    \<Rightarrow> 'a heap \<times> nat" where
  "body_k Ac i j multi k (h, cant_op) =
     (setitem h Ac j k (getitem h Ac j k - multi * getitem h Ac i k), cant_op + 2)"

fun body_j :: "nat \<Rightarrow> nat \<Rightarrow> nat \<Rightarrow> nat \<Rightarrow> 'a::{zero,minus,times,inverse} heap \<times> nat
    \<Rightarrow> 'a heap \<times> nat" where
  "body_j Ac n i j (h, cant_op) =
     (if getitem h Ac j i \<noteq> 0 then
        let multi = getitem h Ac j i / getitem h Ac i i;
            (h1, cant_op1) = fold (body_k Ac i j multi) [i + 1..<n] (h, cant_op);
            cant_op2 = cant_op1 + 1
        in (setitem h1 Ac j i multi, cant_op2)
      else (h, cant_op))"

definition body_i :: "nat \<Rightarrow> nat \<Rightarrow> nat \<Rightarrow> nat \<Rightarrow> 'a::{zero,minus,times,inverse} heap \<times> nat
    \<Rightarrow> 'a heap \<times> nat" where
  "body_i Ac m n i = fold (body_j Ac n i) [i + 1..<m]"

definition elim_loops :: "nat \<Rightarrow> nat \<Rightarrow> nat \<Rightarrow> 'a::{zero,minus,times,inverse} heap \<times> nat
    \<Rightarrow> 'a heap \<times> nat" where
  "elim_loops Ac m n = fold (body_i Ac m n) [0..<n]"

text \<open>
  The function. The copy is made before the shape test, so a non-square argument
  leaves a copy behind, prints, and returns \<open>None\<close> (the bare \<open>return\<close>).
\<close>

definition elim_gaussiana ::
  "'a::{zero,one,plus,minus,times,inverse} state \<Rightarrow> nat
    \<Rightarrow> ('a ndarray \<times> 'a ndarray \<times> nat) option \<times> 'a state" where
  "elim_gaussiana s A =
     (let cant_op = 0;
          m = shape0 (heap s ! A);
          n = shape1 (heap s ! A);
          (Ac, h0) = copy (heap s) A
      in if m \<noteq> n then
           (None, s\<lparr>heap := h0, stdout := stdout s @ [''Matriz no cuadrada'']\<rparr>)
         else
           let (h1, cant_op1) = elim_loops Ac m n (h0, cant_op);
               L = mat_add (tril (h1 ! Ac) (- 1)) (eye (shape0 (h1 ! A)));
               U = triu (h1 ! Ac) 0
           in (Some (L, U, cant_op1), s\<lparr>heap := h1\<rparr>))"

subsection \<open>The driver \<open>main\<close>\<close>

text \<open>
  \<open>B[:n, c] = v\<close>: the entries of column \<open>c\<close> in the rows below \<open>n\<close>. \<open>X @ Y\<close> is the
  matrix product, \<open>np.linalg.norm(X, 1)\<close> the largest column sum of absolute values and
  \<open>np.max(np.sum(np.abs(X), axis=1))\<close> the largest row sum; \<open>np.max\<close> of no values
  raises. \<open>np.allclose(a, 0)\<close> is \<open>\<bar>a - 0\<bar> \<le> atol + rtol * \<bar>0\<bar>\<close> with the default
  tolerances.
\<close>

datatype error = TypeError | ValueError

definition set_column :: "'a heap \<Rightarrow> nat \<Rightarrow> nat \<Rightarrow> nat \<Rightarrow> 'a \<Rightarrow> 'a heap" where
  "set_column h p n c v = fold (\<lambda>r h'. setitem h' p r c v) [0..<min n (shape0 (h ! p))] h"

definition matmul :: "'a::semiring_0 ndarray \<Rightarrow> 'a ndarray \<Rightarrow> 'a ndarray" where
  "matmul X Y = \<lparr>shape0 = shape0 X, shape1 = shape1 Y,
     rows = map (\<lambda>r. map (\<lambda>c. \<Sum>t\<leftarrow>[0..<shape1 X]. rows X ! r ! t * rows Y ! t ! c)
                        [0..<shape1 Y]) [0..<shape0 X]\<rparr>"

definition np_max :: "'a::linorder list \<Rightarrow> error + 'a" where
  "np_max xs = (case xs of [] \<Rightarrow> Inl ValueError | x # ys \<Rightarrow> Inr (fold max ys x))"

definition row_abs_sums :: "'a::linordered_field ndarray \<Rightarrow> 'a list" where
  "row_abs_sums X = map (\<lambda>r. \<Sum>c\<leftarrow>[0..<shape1 X]. \<bar>rows X ! r ! c\<bar>) [0..<shape0 X]"

definition col_abs_sums :: "'a::linordered_field ndarray \<Rightarrow> 'a list" where
  "col_abs_sums X = map (\<lambda>c. \<Sum>r\<leftarrow>[0..<shape0 X]. \<bar>rows X ! r ! c\<bar>) [0..<shape1 X]"

definition allclose0 :: "'a::linordered_field \<Rightarrow> bool" where
  "allclose0 a \<longleftrightarrow> \<bar>a - 0\<bar> \<le> 1 / 10 ^ 8 + 1 / 10 ^ 5 * \<bar>0\<bar>"

text \<open>
  What \<open>main\<close> prints, as values, in the order of its \<open>print\<close> calls: \<open>B\<close> as
  it is before the call, the factors and the count, whether \<open>B - L @ U\<close> (with \<open>B\<close>
  as it is after the call) has a 1-norm close to zero, and the infinity norm of \<open>U\<close>.
\<close>

record 'a report =
  matriz_B :: "'a ndarray"
  matriz_L :: "'a ndarray"
  matriz_U :: "'a ndarray"
  cantidad :: nat
  b_es_lu :: bool
  norma_inf_U :: 'a

text \<open>
  The matrix \<open>B\<close> of \<open>main\<close>: the identity minus the strictly lower triangle of ones, then
  its last column set to one. It is the first object of an empty store.
\<close>

definition matriz_main :: "nat \<Rightarrow> 'a::linordered_field heap" where
  "matriz_main n = set_column [mat_sub (eye n) (tril (ones n n) (- 1))] 0 n (n - 1) 1"

text \<open>
  Unpacking the result of \<open>elim_gaussiana\<close> into three names raises \<open>TypeError\<close> when
  the result is \<open>None\<close>.
\<close>

definition main :: "error + 'a::linordered_field report" where
  "main =
     (let n = 7;
          s0 = \<lparr>heap = matriz_main n, stdout = []\<rparr>;
          B = 0
      in case elim_gaussiana s0 B of
           (None, s1) \<Rightarrow> Inl TypeError
         | (Some (L, U, cant_oper), s1) \<Rightarrow>
             (case np_max (col_abs_sums (mat_sub (heap s1 ! B) (matmul L U))) of
                Inl e \<Rightarrow> Inl e
              | Inr d \<Rightarrow>
                 (case np_max (row_abs_sums U) of
                    Inl e \<Rightarrow> Inl e
                  | Inr nu \<Rightarrow>
                      Inr \<lparr>matriz_B = heap s0 ! B, matriz_L = L, matriz_U = U,
                           cantidad = cant_oper, b_es_lu = allclose0 d,
                           norma_inf_U = nu\<rparr>)))"

subsection \<open>Infinities and NaN\<close>

text \<open>
  The entries of a numpy array of floats are IEEE 754 doubles, and numpy's division of
  doubles does not raise: a nonzero value divided by zero is an infinity, zero divided by
  zero is NaN, and both spread through \<open>+\<close>, \<open>-\<close> and \<open>*\<close> by the rules of the
  standard. The type \<open>ieee\<close> has these special values beside the finite ones. Finite
  values are kept exact (no rounding, no overflow) and the sign of a zero is not
  recorded, so the sign of an infinity that comes from a division by zero is that of the
  dividend. Every special value differs from \<open>0\<close>, as \<open>x != 0\<close> holds for them.
\<close>

datatype ieee = Fin rat | PInf | NInf | NaN

instantiation ieee :: "{zero,one,plus,minus,times,inverse}"
begin

definition zero_ieee :: ieee where "zero_ieee = Fin 0"

definition one_ieee :: ieee where "one_ieee = Fin 1"

fun plus_ieee :: "ieee \<Rightarrow> ieee \<Rightarrow> ieee" where
  "plus_ieee (Fin a) (Fin b) = Fin (a + b)"
| "plus_ieee NaN y = NaN"
| "plus_ieee x NaN = NaN"
| "plus_ieee PInf NInf = NaN"
| "plus_ieee NInf PInf = NaN"
| "plus_ieee PInf y = PInf"
| "plus_ieee x PInf = PInf"
| "plus_ieee NInf y = NInf"
| "plus_ieee x NInf = NInf"

fun minus_ieee :: "ieee \<Rightarrow> ieee \<Rightarrow> ieee" where
  "minus_ieee (Fin a) (Fin b) = Fin (a - b)"
| "minus_ieee NaN y = NaN"
| "minus_ieee x NaN = NaN"
| "minus_ieee PInf PInf = NaN"
| "minus_ieee NInf NInf = NaN"
| "minus_ieee PInf y = PInf"
| "minus_ieee x PInf = NInf"
| "minus_ieee NInf y = NInf"
| "minus_ieee x NInf = PInf"

fun times_ieee :: "ieee \<Rightarrow> ieee \<Rightarrow> ieee" where
  "times_ieee (Fin a) (Fin b) = Fin (a * b)"
| "times_ieee NaN y = NaN"
| "times_ieee x NaN = NaN"
| "times_ieee PInf (Fin b) = (if b = 0 then NaN else if 0 < b then PInf else NInf)"
| "times_ieee NInf (Fin b) = (if b = 0 then NaN else if 0 < b then NInf else PInf)"
| "times_ieee (Fin a) PInf = (if a = 0 then NaN else if 0 < a then PInf else NInf)"
| "times_ieee (Fin a) NInf = (if a = 0 then NaN else if 0 < a then NInf else PInf)"
| "times_ieee PInf PInf = PInf"
| "times_ieee NInf NInf = PInf"
| "times_ieee PInf NInf = NInf"
| "times_ieee NInf PInf = NInf"

fun divide_ieee :: "ieee \<Rightarrow> ieee \<Rightarrow> ieee" where
  "divide_ieee (Fin a) (Fin b) =
     (if b = 0 then (if a = 0 then NaN else if 0 < a then PInf else NInf) else Fin (a / b))"
| "divide_ieee NaN y = NaN"
| "divide_ieee x NaN = NaN"
| "divide_ieee (Fin a) y = Fin 0"
| "divide_ieee PInf (Fin b) = (if 0 \<le> b then PInf else NInf)"
| "divide_ieee NInf (Fin b) = (if 0 \<le> b then NInf else PInf)"
| "divide_ieee x y = NaN"

definition inverse_ieee :: "ieee \<Rightarrow> ieee" where "inverse_ieee x = divide (Fin 1) x"

instance ..

end

text \<open>
  Addition on \<open>ieee\<close> is associative and has \<open>0\<close> as its unit, so what is proved
  for an additive monoid holds for it.
\<close>

instance ieee :: monoid_add
proof
  fix a b c :: ieee
  show "a + b + c = a + (b + c)"
    by (cases a; cases b; cases c) simp_all
  show "0 + a = a" by (cases a) (simp_all add: zero_ieee_def)
  show "a + 0 = a" by (cases a) (simp_all add: zero_ieee_def)
qed


subsection \<open>What the specification states\<close>

text \<open>
  The shapes of the factors, as the specification words them: a unit lower triangular
  matrix has ones on its diagonal and zeros above it, an upper triangular matrix has
  zeros below its diagonal.
\<close>

definition unit_lower_triangular :: "'a::{zero,one} ndarray \<Rightarrow> bool" where
  "unit_lower_triangular M \<longleftrightarrow>
     list_all (\<lambda>r. list_all (\<lambda>c.
         (r = c \<longrightarrow> rows M ! r ! c = 1) \<and> (r < c \<longrightarrow> rows M ! r ! c = 0))
       [0..<shape1 M]) [0..<shape0 M]"

definition upper_triangular :: "'a::zero ndarray \<Rightarrow> bool" where
  "upper_triangular M \<longleftrightarrow>
     list_all (\<lambda>r. list_all (\<lambda>c. c < r \<longrightarrow> rows M ! r ! c = 0)
       [0..<shape1 M]) [0..<shape0 M]"

text \<open>
  \<open>before_pair h Ac m n i j\<close> is the store at the moment the loops reach the pair
  \<open>(i, j)\<close>: all pivot columns before \<open>i\<close> are done, and so are the rows before \<open>j\<close>
  of column \<open>i\<close>. A call meets no zero pivot when, at every pair whose test
  \<open>Ac[j][i] != 0\<close> succeeds, the divisor \<open>Ac[i][i]\<close> is not zero.
\<close>

definition before_pair :: "'a::{zero,minus,times,inverse} heap \<Rightarrow> nat \<Rightarrow> nat \<Rightarrow> nat \<Rightarrow> nat \<Rightarrow> nat
    \<Rightarrow> 'a heap" where
  "before_pair h Ac m n i j =
     fst (fold (body_j Ac n i) [i + 1..<j] (fold (body_i Ac m n) [0..<i] (h, 0)))"

definition no_zero_pivot :: "'a::{zero,minus,times,inverse} state \<Rightarrow> nat \<Rightarrow> bool" where
  "no_zero_pivot s A \<longleftrightarrow>
     (let m = shape0 (heap s ! A); n = shape1 (heap s ! A); (Ac, h0) = copy (heap s) A
      in list_all (\<lambda>i. list_all (\<lambda>j.
           getitem (before_pair h0 Ac m n i j) Ac j i \<noteq> 0 \<longrightarrow>
           getitem (before_pair h0 Ac m n i j) Ac i i \<noteq> 0) [i + 1..<m]) [0..<n])"

text \<open>
  The counting rule in the words of the specification: a pair whose entry is zero counts
  nothing; any other pair counts two for each column \<open>k\<close> of the inner loop, and one
  more.
\<close>

definition opcount_rule :: "'a::{zero,minus,times,inverse} state \<Rightarrow> nat \<Rightarrow> nat" where
  "opcount_rule s A =
     (let m = shape0 (heap s ! A); n = shape1 (heap s ! A); (Ac, h0) = copy (heap s) A
      in \<Sum>i\<leftarrow>[0..<n]. \<Sum>j\<leftarrow>[i + 1..<m].
           if getitem (before_pair h0 Ac m n i j) Ac j i = 0 then 0
           else (\<Sum>k\<leftarrow>[i + 1..<n]. 2) + 1)"

text \<open>
  A zero pivot is used at the pair \<open>(i, j)\<close> when the loops reach it with a nonzero
  \<open>Ac[j][i]\<close> and a zero \<open>Ac[i][i]\<close>: the division \<open>Ac[j][i] / Ac[i][i]\<close> is then
  evaluated with a zero divisor.
\<close>

definition zero_pivot_at :: "'a::{zero,minus,times,inverse} state \<Rightarrow> nat \<Rightarrow> nat \<Rightarrow> nat \<Rightarrow> bool" where
  "zero_pivot_at s A i j \<longleftrightarrow>
     (let m = shape0 (heap s ! A); n = shape1 (heap s ! A); (Ac, h0) = copy (heap s) A
      in i < n \<and> i < j \<and> j < m \<and>
         getitem (before_pair h0 Ac m n i j) Ac j i \<noteq> 0 \<and>
         getitem (before_pair h0 Ac m n i j) Ac i i = 0)"

subsection \<open>Example inputs\<close>

definition ejemplo :: "rat state" where
  "ejemplo = \<lparr>heap = [\<lparr>shape0 = 3, shape1 = 3, rows = [[2, 1, 2], [1, 1, 3], [4, 0, 1]]\<rparr>],
               stdout = []\<rparr>"

definition ejemplo_rect :: "rat state" where
  "ejemplo_rect = \<lparr>heap = [\<lparr>shape0 = 2, shape1 = 3, rows = [[0, 1, 2], [1, 1, 3]]\<rparr>],
                    stdout = []\<rparr>"

definition ejemplo_triu :: "rat state" where
  "ejemplo_triu = \<lparr>heap = [\<lparr>shape0 = 3, shape1 = 3, rows = [[2, 1, 2], [0, 0, 3], [0, 0, 5]]\<rparr>],
                    stdout = []\<rparr>"

definition ejemplo_pivote_nulo :: "ieee state" where
  "ejemplo_pivote_nulo =
     \<lparr>heap = [\<lparr>shape0 = 2, shape1 = 2, rows = [[Fin 0, Fin 1], [Fin 1, Fin 1]]\<rparr>],
      stdout = []\<rparr>"

subsection \<open>Notions used in the proofs\<close>

text \<open>
  \<open>frame p h h'\<close>: the store \<open>h'\<close> differs from \<open>h\<close> at most in the entries of the
  object \<open>p\<close>. \<open>sq_at h p n\<close>: the object \<open>p\<close> has \<open>n\<close> rows of length \<open>n\<close>.
\<close>

definition frame :: "nat \<Rightarrow> 'a heap \<Rightarrow> 'a heap \<Rightarrow> bool" where
  "frame p h h' \<longleftrightarrow>
     length h' = length h \<and> (\<forall>q. q \<noteq> p \<longrightarrow> h' ! q = h ! q) \<and>
     shape0 (h' ! p) = shape0 (h ! p) \<and> shape1 (h' ! p) = shape1 (h ! p) \<and>
     length (rows (h' ! p)) = length (rows (h ! p)) \<and>
     (\<forall>r. length (rows (h' ! p) ! r) = length (rows (h ! p) ! r))"

definition sq_at :: "'a heap \<Rightarrow> nat \<Rightarrow> nat \<Rightarrow> bool" where
  "sq_at h p n \<longleftrightarrow>
     p < length h \<and> length (rows (h ! p)) = n \<and> (\<forall>r<n. length (rows (h ! p) ! r) = n)"

text \<open>
  The effect of the loops on the entries of the working copy, as functions from indices
  to values: one row of one pivot column, one whole pivot column, and the first \<open>I\<close>
  pivot columns; with the operations each of them counts.
\<close>

definition row_elim :: "nat \<Rightarrow> nat \<Rightarrow> nat \<Rightarrow> (nat \<Rightarrow> nat \<Rightarrow> 'a) \<Rightarrow> nat
    \<Rightarrow> 'a::{zero,minus,times,inverse}" where
  "row_elim n i j G c =
     (if G j i \<noteq> 0 then
        (if c = i then G j i / G i i
         else if i < c \<and> c < n then G j c - G j i / G i i * G i c
         else G j c)
      else G j c)"

definition row_cost :: "nat \<Rightarrow> nat \<Rightarrow> nat \<Rightarrow> (nat \<Rightarrow> nat \<Rightarrow> 'a::zero) \<Rightarrow> nat" where
  "row_cost n i j G = (if G j i \<noteq> 0 then 2 * (n - Suc i) + 1 else 0)"

definition col_elim :: "nat \<Rightarrow> nat \<Rightarrow> (nat \<Rightarrow> nat \<Rightarrow> 'a) \<Rightarrow> nat \<Rightarrow> nat
    \<Rightarrow> 'a::{zero,minus,times,inverse}" where
  "col_elim n i G = (\<lambda>r. if i < r \<and> r < n then row_elim n i r G else G r)"

definition col_cost :: "nat \<Rightarrow> nat \<Rightarrow> (nat \<Rightarrow> nat \<Rightarrow> 'a::zero) \<Rightarrow> nat" where
  "col_cost n i G = (\<Sum>j\<leftarrow>[Suc i..<n]. row_cost n i j G)"

definition entries_upto :: "nat \<Rightarrow> nat \<Rightarrow> (nat \<Rightarrow> nat \<Rightarrow> 'a) \<Rightarrow> nat \<Rightarrow> nat
    \<Rightarrow> 'a::{zero,minus,times,inverse}" where
  "entries_upto n I G = fold (col_elim n) [0..<I] G"

definition cost_upto :: "nat \<Rightarrow> nat \<Rightarrow> (nat \<Rightarrow> nat \<Rightarrow> 'a::{zero,minus,times,inverse}) \<Rightarrow> nat" where
  "cost_upto n I G = (\<Sum>i\<leftarrow>[0..<I]. col_cost n i (entries_upto n i G))"



text \<open>The square array with given entries, and the entries of an array.\<close>

definition matrix_of :: "nat \<Rightarrow> (nat \<Rightarrow> nat \<Rightarrow> 'a) \<Rightarrow> 'a ndarray" where
  "matrix_of n E = \<lparr>shape0 = n, shape1 = n, rows = map (\<lambda>r. map (E r) [0..<n]) [0..<n]\<rparr>"

definition entries_of :: "'a ndarray \<Rightarrow> nat \<Rightarrow> nat \<Rightarrow> 'a" where
  "entries_of M = (\<lambda>r c. rows M ! r ! c)"

section \<open>The loops only touch the working copy\<close>

lemma frame_refl: "frame p h h"
  by (simp add: frame_def)

lemma frame_trans: "frame p h h1 \<Longrightarrow> frame p h1 h2 \<Longrightarrow> frame p h h2"
  by (simp add: frame_def)

lemma frame_setitem: "frame p h (setitem h p r c v)"
proof (cases "p < length h")
  case True
  have "length ((rows (h ! p))[r := (rows (h ! p) ! r)[c := v]] ! r') = length (rows (h ! p) ! r')" for r'
    by (cases "r' = r"; cases "r < length (rows (h ! p))") (simp_all add: list_update_beyond)
  with True show ?thesis by (simp add: frame_def setitem_def)
next
  case False
  then show ?thesis by (simp add: frame_def setitem_def list_update_beyond)
qed

lemma frame_body_k: "frame Ac h (fst (body_k Ac i j multi k (h, c)))"
  by (simp add: frame_setitem)

lemma frame_fold:
  assumes "\<And>x h c. frame p h (fst (f x (h, c)))"
  shows "frame p h (fst (fold f xs (h, c)))"
proof (induction xs arbitrary: h c)
  case Nil
  show ?case by (simp add: frame_refl)
next
  case (Cons x xs)
  obtain h1 c1 where s: "f x (h, c) = (h1, c1)" by (cases "f x (h, c)")
  have "frame p h h1" using assms [of h x c] s by simp
  moreover have "frame p h1 (fst (fold f xs (h1, c1)))" by (rule Cons.IH)
  ultimately show ?case using s by (simp add: frame_trans)
qed

lemma frame_body_j: "frame Ac h (fst (body_j Ac n i j (h, c)))"
proof (cases "getitem h Ac j i \<noteq> 0")
  case True
  define multi where "multi = getitem h Ac j i / getitem h Ac i i"
  obtain h1 c1 where f: "fold (body_k Ac i j multi) [i + 1..<n] (h, c) = (h1, c1)"
    by (cases "fold (body_k Ac i j multi) [i + 1..<n] (h, c)")
  have "frame Ac h h1"
    using frame_fold [of Ac "body_k Ac i j multi" h "[i + 1..<n]" c, OF frame_body_k] f by simp
  then have "frame Ac h (setitem h1 Ac j i multi)"
    by (rule frame_trans [OF _ frame_setitem])
  then show ?thesis using True f by (simp add: multi_def)
next
  case False
  then show ?thesis by (simp add: frame_refl)
qed

lemma frame_body_i: "frame Ac h (fst (body_i Ac m n i (h, c)))"
  unfolding body_i_def by (rule frame_fold) (rule frame_body_j)

lemma frame_elim_loops: "frame Ac h (fst (elim_loops Ac m n (h, c)))"
  unfolding elim_loops_def by (rule frame_fold) (rule frame_body_i)

lemma sq_at_frame: "frame p h h' \<Longrightarrow> sq_at h p n \<Longrightarrow> sq_at h' p n"
  by (simp add: frame_def sq_at_def)

lemma sq_at_fold_body_j:
  "sq_at h Ac n \<Longrightarrow> sq_at (fst (fold (body_j Ac n i) js (h, c))) Ac n"
  by (rule sq_at_frame [OF frame_fold [of Ac "body_j Ac n i", OF frame_body_j]])

lemma sq_at_fold_body_i:
  "sq_at h Ac n \<Longrightarrow> sq_at (fst (fold (body_i Ac m n) is (h, c))) Ac n"
  by (rule sq_at_frame [OF frame_fold [of Ac "body_i Ac m n", OF frame_body_i]])

lemma frame_prefix:
  assumes "frame (length h) (h @ [M]) h'"
  shows "take (length h) h' = h" and "length h' = Suc (length h)"
proof -
  show l: "length h' = Suc (length h)" using assms by (simp add: frame_def)
  have "h' ! q = h ! q" if "q < length h" for q
  proof -
    have "h' ! q = (h @ [M]) ! q" using assms that by (simp add: frame_def)
    then show ?thesis using that by (simp add: nth_append)
  qed
  then show "take (length h) h' = h" using l by (intro nth_equalityI) simp_all
qed

section \<open>The entries after each loop\<close>

lemma getitem_setitem:
  assumes "sq_at h p n" "r < n" "c < n"
  shows "getitem (setitem h p r c v) p = (getitem h p)(r := (getitem h p r)(c := v))"
proof (intro ext)
  fix r' c'
  have p: "p < length h" and lr: "r < length (rows (h ! p))"
    and lc: "c < length (rows (h ! p) ! r)"
    using assms by (simp_all add: sq_at_def)
  show "getitem (setitem h p r c v) p r' c' =
        ((getitem h p)(r := (getitem h p r)(c := v))) r' c'"
    using p lr lc by (simp add: getitem_def setitem_def nth_list_update)
qed

lemma fold_body_k:
  assumes "j < n" "i < n" "i \<noteq> j"
  shows "sq_at h Ac n \<Longrightarrow> set ks \<subseteq> {..<n} \<Longrightarrow> distinct ks \<Longrightarrow>
     snd (fold (body_k Ac i j multi) ks (h, c)) = c + 2 * length ks \<and>
     getitem (fst (fold (body_k Ac i j multi) ks (h, c))) Ac =
       (\<lambda>r cc. if r = j \<and> cc \<in> set ks then getitem h Ac j cc - multi * getitem h Ac i cc
                else getitem h Ac r cc)"
proof (induction ks arbitrary: h c)
  case Nil
  show ?case by simp
next
  case (Cons k ks)
  define h1 where "h1 = setitem h Ac j k (getitem h Ac j k - multi * getitem h Ac i k)"
  have k: "k < n" "k \<notin> set ks" using Cons.prems by simp_all
  have sq1: "sq_at h1 Ac n"
    unfolding h1_def by (rule sq_at_frame [OF frame_setitem Cons.prems(1)])
  have g1: "getitem h1 Ac =
      (getitem h Ac)(j := (getitem h Ac j)(k := getitem h Ac j k - multi * getitem h Ac i k))"
    unfolding h1_def using Cons.prems(1) assms(1) k(1) by (rule getitem_setitem)
  have ih: "snd (fold (body_k Ac i j multi) ks (h1, c + 2)) = c + 2 + 2 * length ks \<and>
     getitem (fst (fold (body_k Ac i j multi) ks (h1, c + 2))) Ac =
       (\<lambda>r cc. if r = j \<and> cc \<in> set ks then getitem h1 Ac j cc - multi * getitem h1 Ac i cc
                else getitem h1 Ac r cc)"
    using Cons.IH [OF sq1] Cons.prems by simp
  have step: "fold (body_k Ac i j multi) (k # ks) (h, c) =
      fold (body_k Ac i j multi) ks (h1, c + 2)"
    by (simp add: h1_def)
  have "(\<lambda>r cc. if r = j \<and> cc \<in> set ks then getitem h1 Ac j cc - multi * getitem h1 Ac i cc
                else getitem h1 Ac r cc) =
        (\<lambda>r cc. if r = j \<and> cc \<in> set (k # ks)
                then getitem h Ac j cc - multi * getitem h Ac i cc
                else getitem h Ac r cc)"
    using k(2) assms(3) by (intro ext) (auto simp: g1)
  then show ?case using ih unfolding step by simp
qed

lemma snd_fold_body_k:
  "snd (fold (body_k Ac i j multi) ks (h, c)) = c + 2 * length ks"
  by (induction ks arbitrary: h c) simp_all

lemma body_j_entries:
  assumes "sq_at h Ac n" "i < j" "j < n"
  shows "getitem (fst (body_j Ac n i j (h, c))) Ac =
           (\<lambda>r. if r = j then row_elim n i j (getitem h Ac) else getitem h Ac r)"
    and "snd (body_j Ac n i j (h, c)) = c + row_cost n i j (getitem h Ac)"
proof -
  define multi where "multi = getitem h Ac j i / getitem h Ac i i"
  obtain h1 c1 where f: "fold (body_k Ac i j multi) [i + 1..<n] (h, c) = (h1, c1)"
    by (cases "fold (body_k Ac i j multi) [i + 1..<n] (h, c)")
  have i: "i < n" "i \<noteq> j" using assms by simp_all
  have k: "c1 = c + 2 * length [i + 1..<n] \<and>
     getitem h1 Ac =
       (\<lambda>r cc. if r = j \<and> cc \<in> set [i + 1..<n]
                then getitem h Ac j cc - multi * getitem h Ac i cc
                else getitem h Ac r cc)"
  proof -
    have sub: "set [i + 1..<n] \<subseteq> {..<n}" by auto
    show ?thesis
      using fold_body_k [OF assms(3) i assms(1) sub distinct_upt, of multi c] f by simp
  qed
  have "frame Ac h h1"
    using frame_fold [of Ac "body_k Ac i j multi" h "[i + 1..<n]" c, OF frame_body_k] f by simp
  then have sq1: "sq_at h1 Ac n" using assms(1) by (rule sq_at_frame)
  have g2: "getitem (setitem h1 Ac j i multi) Ac =
      (getitem h1 Ac)(j := (getitem h1 Ac j)(i := multi))"
    using sq1 assms(3) i(1) by (rule getitem_setitem)
  have m: "getitem h Ac j i / getitem h Ac i i = multi" by (simp add: multi_def)
  have b: "getitem h Ac j i \<noteq> 0 \<Longrightarrow>
      body_j Ac n i j (h, c) = (setitem h1 Ac j i multi, c1 + 1)"
    using f by (simp add: m Let_def)
  show "getitem (fst (body_j Ac n i j (h, c))) Ac =
           (\<lambda>r. if r = j then row_elim n i j (getitem h Ac) else getitem h Ac r)"
  proof (cases "getitem h Ac j i \<noteq> 0")
    case True
    have G1: "getitem h1 Ac =
       (\<lambda>r cc. if r = j \<and> cc \<in> set [i + 1..<n]
                then getitem h Ac j cc - multi * getitem h Ac i cc
                else getitem h Ac r cc)"
      using k by blast
    have "getitem (setitem h1 Ac j i multi) Ac r cc =
        (if r = j then row_elim n i j (getitem h Ac) cc else getitem h Ac r cc)" for r cc
    proof (cases "r = j")
      case r: True
      consider "cc = i" | "i < cc" "cc < n" | "cc < i" | "n \<le> cc" "cc \<noteq> i"
        by linarith
      then show ?thesis
      proof cases
        case 1
        then show ?thesis using True r by (simp add: g2 row_elim_def m)
      next
        case 2
        then show ?thesis using True r by (simp add: g2 G1 row_elim_def m)
      next
        case 3
        then show ?thesis using True r by (simp add: g2 G1 row_elim_def m)
      next
        case 4
        then show ?thesis using True r i by (simp add: g2 G1 row_elim_def m)
      qed
    next
      case False
      then show ?thesis by (simp add: g2 G1)
    qed
    then show ?thesis
      unfolding b [OF True] by (intro ext) simp
  next
    case False
    then show ?thesis by (intro ext) (simp add: row_elim_def)
  qed
  show "snd (body_j Ac n i j (h, c)) = c + row_cost n i j (getitem h Ac)"
  proof (cases "getitem h Ac j i \<noteq> 0")
    case True
    show ?thesis unfolding b [OF True] using True k by (simp add: row_cost_def)
  next
    case False
    then show ?thesis by (simp add: row_cost_def)
  qed
qed

lemma row_elim_cong:
  "G' j = G j \<Longrightarrow> G' i = G i \<Longrightarrow> row_elim n i j G' = row_elim n i j G"
  by (intro ext) (simp add: row_elim_def)

lemma row_cost_cong: "G' j = G j \<Longrightarrow> row_cost n i j G' = row_cost n i j G"
  by (simp add: row_cost_def)

lemma fold_body_j:
  assumes "sq_at h Ac n"
  shows "J \<le> n \<Longrightarrow>
     getitem (fst (fold (body_j Ac n i) [Suc i..<J] (h, c))) Ac =
       (\<lambda>r. if i < r \<and> r < J then row_elim n i r (getitem h Ac) else getitem h Ac r) \<and>
     snd (fold (body_j Ac n i) [Suc i..<J] (h, c)) =
       c + (\<Sum>j\<leftarrow>[Suc i..<J]. row_cost n i j (getitem h Ac))"
proof (induction J)
  case 0
  show ?case by simp
next
  case (Suc J)
  show ?case
  proof (cases "Suc i \<le> J")
    case True
    obtain h1 c1 where f: "fold (body_j Ac n i) [Suc i..<J] (h, c) = (h1, c1)"
      by (cases "fold (body_j Ac n i) [Suc i..<J] (h, c)")
    have ih: "getitem h1 Ac =
        (\<lambda>r. if i < r \<and> r < J then row_elim n i r (getitem h Ac) else getitem h Ac r)"
      and ihc: "c1 = c + (\<Sum>j\<leftarrow>[Suc i..<J]. row_cost n i j (getitem h Ac))"
      using Suc f by simp_all
    have sq1: "sq_at h1 Ac n"
      using sq_at_fold_body_j [OF assms, of i "[Suc i..<J]" c] f by simp
    have iJ: "i < J" "J < n" using True Suc.prems by simp_all
    have rJ: "getitem h1 Ac J = getitem h Ac J" and ri: "getitem h1 Ac i = getitem h Ac i"
      by (simp_all add: ih)
    have split: "fold (body_j Ac n i) [Suc i..<Suc J] (h, c) = body_j Ac n i J (h1, c1)"
      using True f by (simp del: body_j.simps)
    have e: "getitem (fst (body_j Ac n i J (h1, c1))) Ac =
           (\<lambda>r. if r = J then row_elim n i J (getitem h1 Ac) else getitem h1 Ac r)"
      and ec: "snd (body_j Ac n i J (h1, c1)) = c1 + row_cost n i J (getitem h1 Ac)"
      using body_j_entries [OF sq1 iJ, of c1] by blast+
    have "(\<lambda>r. if r = J then row_elim n i J (getitem h1 Ac) else getitem h1 Ac r) =
       (\<lambda>r. if i < r \<and> r < Suc J then row_elim n i r (getitem h Ac) else getitem h Ac r)"
    proof (intro ext)
      fix r cc
      show "(if r = J then row_elim n i J (getitem h1 Ac) else getitem h1 Ac r) cc =
        (if i < r \<and> r < Suc J then row_elim n i r (getitem h Ac) else getitem h Ac r) cc"
      proof (cases "r = J")
        case True
        then show ?thesis using iJ(1) by (simp add: row_elim_cong [of "getitem h1 Ac" J "getitem h Ac" i, OF rJ ri])
      next
        case False
        then show ?thesis by (auto simp: ih)
      qed
    qed
    then have "getitem (fst (body_j Ac n i J (h1, c1))) Ac =
       (\<lambda>r. if i < r \<and> r < Suc J then row_elim n i r (getitem h Ac) else getitem h Ac r)"
      using e by simp
    moreover have "snd (body_j Ac n i J (h1, c1)) =
       c + (\<Sum>j\<leftarrow>[Suc i..<Suc J]. row_cost n i j (getitem h Ac))"
      using True ec ihc by (simp add: row_cost_cong [of "getitem h1 Ac" J "getitem h Ac", OF rJ])
    ultimately show ?thesis unfolding split by (rule conjI)
  next
    case False
    then have e: "[Suc i..<Suc J] = []" by simp
    have "(\<lambda>r. if i < r \<and> r < Suc J then row_elim n i r (getitem h Ac)
               else getitem h Ac r) = getitem h Ac"
      using False by (intro ext) auto
    then show ?thesis unfolding e by simp
  qed
qed

lemma body_i_entries:
  assumes "sq_at h Ac n"
  shows "getitem (fst (body_i Ac n n i (h, c))) Ac = col_elim n i (getitem h Ac)"
    and "snd (body_i Ac n n i (h, c)) = c + col_cost n i (getitem h Ac)"
  using fold_body_j [OF assms, of n i c] by (simp_all add: body_i_def col_elim_def col_cost_def)

lemma fold_body_i:
  assumes "sq_at h Ac n"
  shows "getitem (fst (fold (body_i Ac n n) [0..<I] (h, c))) Ac =
           entries_upto n I (getitem h Ac) \<and>
         snd (fold (body_i Ac n n) [0..<I] (h, c)) = c + cost_upto n I (getitem h Ac)"
proof (induction I)
  case 0
  show ?case by (simp add: entries_upto_def cost_upto_def)
next
  case (Suc I)
  obtain h1 c1 where f: "fold (body_i Ac n n) [0..<I] (h, c) = (h1, c1)"
    by (cases "fold (body_i Ac n n) [0..<I] (h, c)")
  have ih: "getitem h1 Ac = entries_upto n I (getitem h Ac)"
    and ihc: "c1 = c + cost_upto n I (getitem h Ac)"
    using Suc f by simp_all
  have sq1: "sq_at h1 Ac n"
    using sq_at_fold_body_i [OF assms, of n "[0..<I]" c] f by simp
  have split: "fold (body_i Ac n n) [0..<Suc I] (h, c) = body_i Ac n n I (h1, c1)"
    using f by simp
  show ?case
    unfolding split body_i_entries [OF sq1] ih ihc
    by (simp add: entries_upto_def cost_upto_def)
qed

lemma elim_loops_entries:
  assumes "sq_at h Ac n"
  shows "getitem (fst (elim_loops Ac n n (h, c))) Ac = entries_upto n n (getitem h Ac)"
    and "snd (elim_loops Ac n n (h, c)) = c + cost_upto n n (getitem h Ac)"
  using fold_body_i [OF assms, of n c] by (simp_all add: elim_loops_def)

lemma before_pair_entries:
  assumes "sq_at h Ac n" "j \<le> n"
  shows "getitem (before_pair h Ac n n i j) Ac =
     (\<lambda>r. if i < r \<and> r < j then row_elim n i r (entries_upto n i (getitem h Ac))
          else entries_upto n i (getitem h Ac) r)"
proof -
  obtain h1 c1 where f: "fold (body_i Ac n n) [0..<i] (h, 0) = (h1, c1)"
    by (cases "fold (body_i Ac n n) [0..<i] (h, 0)")
  have sq1: "sq_at h1 Ac n"
    using sq_at_fold_body_i [OF assms(1), of n "[0..<i]" 0] f by simp
  have e: "getitem h1 Ac = entries_upto n i (getitem h Ac)"
    using fold_body_i [OF assms(1), of i 0] f by simp
  show ?thesis
    using fold_body_j [OF sq1 assms(2), of i c1] unfolding e by (simp add: before_pair_def f)
qed

lemma before_pair_test:
  assumes "sq_at h Ac n" "i < j" "j < n"
  shows "getitem (before_pair h Ac n n i j) Ac j i = entries_upto n i (getitem h Ac) j i"
    and "getitem (before_pair h Ac n n i j) Ac i i = entries_upto n i (getitem h Ac) i i"
  using assms by (simp_all add: before_pair_entries)

section \<open>The algebra of the elimination\<close>

lemma col_elim_above: "r \<le> i \<Longrightarrow> col_elim n i G r = G r"
  by (simp add: col_elim_def)

lemma col_elim_left: "c < i \<Longrightarrow> col_elim n i G r c = G r c"
  by (simp add: col_elim_def row_elim_def)







lemma col_elim_noop:
  assumes "\<forall>r. i < r \<and> r < n \<longrightarrow> G r i = 0"
  shows "col_elim n i G = G"
  using assms by (intro ext) (simp add: col_elim_def row_elim_def)

lemma entries_upto_upper:
  assumes "\<forall>r<n. \<forall>c<r. G r c = 0"
  shows "entries_upto n I G = G"
proof (induction I)
  case 0
  show ?case by (simp add: entries_upto_def)
next
  case (Suc I)
  have "col_elim n I G = G" using assms by (intro col_elim_noop) simp
  then show ?case using Suc by (simp add: entries_upto_def)
qed

lemma cost_upto_upper:
  assumes "\<forall>r<n. \<forall>c<r. G r c = 0"
  shows "cost_upto n I G = 0"
  using assms by (simp add: cost_upto_def entries_upto_upper col_cost_def row_cost_def)

lemma entries_upto_Suc: "entries_upto n (Suc I) G = col_elim n I (entries_upto n I G)"
  by (simp add: entries_upto_def)

lemma entries_upto_col_stable:
  "c < I \<Longrightarrow> entries_upto n (I + d) G r c = entries_upto n I G r c"
  by (induction d) (simp_all add: entries_upto_Suc col_elim_left)

lemma entries_upto_row_stable:
  "r \<le> I \<Longrightarrow> entries_upto n (I + d) G r = entries_upto n I G r"
  by (induction d) (simp_all add: entries_upto_Suc col_elim_above)

lemma final_multiplier:
  assumes "i < j" "j < n" "entries_upto n i G j i \<noteq> 0"
  shows "entries_upto n n G j i = entries_upto n i G j i / entries_upto n i G i i"
proof -
  have "entries_upto n (Suc i + (n - Suc i)) G j i = entries_upto n (Suc i) G j i"
    by (rule entries_upto_col_stable) simp
  moreover have "Suc i + (n - Suc i) = n" using assms by simp
  ultimately have "entries_upto n n G j i = entries_upto n (Suc i) G j i" by simp
  then show ?thesis
    using assms by (simp add: entries_upto_Suc col_elim_def row_elim_def)
qed

lemma final_diagonal:
  assumes "i < n"
  shows "entries_upto n n G i i = entries_upto n i G i i"
proof -
  have "entries_upto n (i + (n - i)) G i = entries_upto n i G i"
    by (rule entries_upto_row_stable) simp
  then show ?thesis using assms by simp
qed

section \<open>The result of a call\<close>

lemma wf_array_sq_at:
  assumes "wf_array M" "shape0 M = n" "shape1 M = n" "p < length h" "h ! p = M"
  shows "sq_at h p n"
  using assms by (simp add: wf_array_def sq_at_def list_all_length)

lemma matrix_of_eqI:
  assumes "shape0 M = n" "shape1 M = n" "length (rows M) = n"
    "\<forall>r<n. length (rows M ! r) = n" "\<forall>r<n. \<forall>c<n. rows M ! r ! c = E r c"
  shows "M = matrix_of n E"
proof -
  have "rows M ! r = map (E r) [0..<n]" if "r < n" for r
    using assms(4,5) that by (intro nth_equalityI) simp_all
  then have "rows M = map (\<lambda>r. map (E r) [0..<n]) [0..<n]"
    using assms(3) by (intro nth_equalityI) simp_all
  then show ?thesis using assms(1,2) by (simp add: matrix_of_def)
qed

lemma matrix_of_eqI_wf:
  assumes "wf_array M" "shape0 M = n" "shape1 M = n"
    "\<forall>r<n. \<forall>c<n. rows M ! r ! c = E r c"
  shows "M = matrix_of n E"
  using assms by (intro matrix_of_eqI) (simp_all add: wf_array_def list_all_length)

lemma matrix_of_entries: "wf_array M \<Longrightarrow> shape0 M = n \<Longrightarrow> shape1 M = n \<Longrightarrow>
    matrix_of n (entries_of M) = M"
  by (rule matrix_of_eqI [symmetric]) (simp_all add: wf_array_def list_all_length entries_of_def)

lemma elim_gaussiana_square:
  assumes "shape0 (heap s ! A) = n" "shape1 (heap s ! A) = n"
  shows "elim_gaussiana s A =
    (Some (mat_add (tril (fst (elim_loops (length (heap s)) n n (heap s @ [heap s ! A], 0))
                           ! length (heap s)) (- 1))
                   (eye (shape0 (fst (elim_loops (length (heap s)) n n
                                       (heap s @ [heap s ! A], 0)) ! A))),
           triu (fst (elim_loops (length (heap s)) n n (heap s @ [heap s ! A], 0))
                  ! length (heap s)) 0,
           snd (elim_loops (length (heap s)) n n (heap s @ [heap s ! A], 0))),
     s\<lparr>heap := fst (elim_loops (length (heap s)) n n (heap s @ [heap s ! A], 0))\<rparr>)"
  using assms by (simp add: elim_gaussiana_def copy_def Let_def split_beta)

lemma elim_gaussiana_nonsquare:
  assumes "shape0 (heap s ! A) \<noteq> shape1 (heap s ! A)"
  shows "elim_gaussiana s A =
    (None, s\<lparr>heap := heap s @ [heap s ! A], stdout := stdout s @ [''Matriz no cuadrada'']\<rparr>)"
  using assms by (simp add: elim_gaussiana_def copy_def Let_def)

lemma heap_after_call:
  "take (length (heap s)) (heap (snd (elim_gaussiana s A))) = heap s \<and>
   length (heap (snd (elim_gaussiana s A))) = Suc (length (heap s))"
proof (cases "shape0 (heap s ! A) = shape1 (heap s ! A)")
  case True
  have f: "frame (length (heap s)) (heap s @ [heap s ! A])
      (fst (elim_loops (length (heap s)) (shape1 (heap s ! A)) (shape1 (heap s ! A))
             (heap s @ [heap s ! A], 0)))"
    by (rule frame_elim_loops)
  show ?thesis
    using frame_prefix [OF f] by (simp add: elim_gaussiana_square [OF True refl])
next
  case False
  then show ?thesis by (simp add: elim_gaussiana_nonsquare)
qed

lemma loops_result:
  assumes A: "A < length (heap s)" and wf: "wf_array (heap s ! A)"
    and n: "shape0 (heap s ! A) = n" "shape1 (heap s ! A) = n"
  shows "fst (elim_loops (length (heap s)) n n (heap s @ [heap s ! A], 0)) =
           heap s @ [matrix_of n (entries_upto n n (entries_of (heap s ! A)))]"
    and "snd (elim_loops (length (heap s)) n n (heap s @ [heap s ! A], 0)) =
           cost_upto n n (entries_of (heap s ! A))"
proof -
  define h0 where "h0 = heap s @ [heap s ! A]"
  define Ac where "Ac = length (heap s)"
  define h1 where "h1 = fst (elim_loops Ac n n (h0, 0))"
  have sq0: "sq_at h0 Ac n"
    using wf n by (intro wf_array_sq_at [of "heap s ! A"]) (simp_all add: h0_def Ac_def)
  have g0: "getitem h0 Ac = entries_of (heap s ! A)"
    by (intro ext) (simp add: getitem_def entries_of_def h0_def Ac_def)
  have fr: "frame Ac h0 h1" unfolding h1_def by (rule frame_elim_loops)
  have sq1: "sq_at h1 Ac n" using fr sq0 by (rule sq_at_frame)
  have e: "getitem h1 Ac = entries_upto n n (entries_of (heap s ! A))"
    unfolding h1_def using elim_loops_entries(1) [OF sq0, of 0] by (simp add: g0)
  have sh: "shape0 (h1 ! Ac) = n" "shape1 (h1 ! Ac) = n"
    using fr n by (simp_all add: frame_def h0_def Ac_def)
  have m: "h1 ! Ac = matrix_of n (entries_upto n n (entries_of (heap s ! A)))"
  proof (rule matrix_of_eqI [OF sh])
    show "length (rows (h1 ! Ac)) = n" using sq1 by (simp add: sq_at_def)
    show "\<forall>r<n. length (rows (h1 ! Ac) ! r) = n" using sq1 by (simp add: sq_at_def)
    show "\<forall>r<n. \<forall>c<n. rows (h1 ! Ac) ! r ! c =
        entries_upto n n (entries_of (heap s ! A)) r c"
      using e by (simp add: getitem_def fun_eq_iff)
  qed
  have p: "take (length (heap s)) h1 = heap s" "length h1 = Suc (length (heap s))"
    using frame_prefix [of "heap s" "heap s ! A" h1] fr by (simp_all add: h0_def Ac_def)
  have "h1 = take (length (heap s)) h1 @ [h1 ! Ac]"
    using p(2) by (simp add: Ac_def take_Suc_conv_app_nth [symmetric])
  then have "h1 = heap s @ [matrix_of n (entries_upto n n (entries_of (heap s ! A)))]"
    using p(1) m by simp
  then show "fst (elim_loops (length (heap s)) n n (heap s @ [heap s ! A], 0)) =
           heap s @ [matrix_of n (entries_upto n n (entries_of (heap s ! A)))]"
    by (simp add: h1_def h0_def Ac_def)
  show "snd (elim_loops (length (heap s)) n n (heap s @ [heap s ! A], 0)) =
           cost_upto n n (entries_of (heap s ! A))"
    using elim_loops_entries(2) [OF sq0, of 0] unfolding g0 by (simp add: h0_def Ac_def)
qed

lemma elim_gaussiana_value:
  assumes A: "A < length (heap s)" and wf: "wf_array (heap s ! A)"
    and n: "shape0 (heap s ! A) = n" "shape1 (heap s ! A) = n"
  shows "elim_gaussiana s A =
    (Some (mat_add (tril (matrix_of n (entries_upto n n (entries_of (heap s ! A)))) (- 1)) (eye n),
           triu (matrix_of n (entries_upto n n (entries_of (heap s ! A)))) 0,
           cost_upto n n (entries_of (heap s ! A))),
     s\<lparr>heap := heap s @ [matrix_of n (entries_upto n n (entries_of (heap s ! A)))]\<rparr>)"
  unfolding elim_gaussiana_square [OF n] loops_result [OF A wf n]
  using A n by (simp add: nth_append)

lemma L_entry:
  assumes "r < n" "c < n"
  shows "rows (mat_add (tril (matrix_of n E) (- 1)) (eye n)) ! r ! c =
     (if c < r then E r c else 0) + (if r = c then 1 else 0)"
  using assms by (simp add: mat_add_def tril_def eye_def matrix_of_def)

lemma U_entry:
  assumes "r < n" "c < n"
  shows "rows (triu (matrix_of n E) 0) ! r ! c = (if r \<le> c then E r c else 0)"
  using assms by (simp add: triu_def matrix_of_def)

lemma L_shape:
  "shape0 (mat_add (tril (matrix_of n E) (- 1)) (eye n)) = n"
  "shape1 (mat_add (tril (matrix_of n E) (- 1)) (eye n)) = n"
  "wf_array (mat_add (tril (matrix_of n E) (- 1)) (eye n))"
  by (simp_all add: mat_add_def tril_def eye_def matrix_of_def wf_array_def list_all_length)

lemma U_shape:
  "shape0 (triu (matrix_of n E) 0) = n"
  "shape1 (triu (matrix_of n E) 0) = n"
  "wf_array (triu (matrix_of n E) 0)"
  by (simp_all add: triu_def matrix_of_def wf_array_def list_all_length)

lemma sq_at_copy:
  assumes "wf_array (heap s ! A)" "shape0 (heap s ! A) = n" "shape1 (heap s ! A) = n"
  shows "sq_at (heap s @ [heap s ! A]) (length (heap s)) n"
    and "getitem (heap s @ [heap s ! A]) (length (heap s)) = entries_of (heap s ! A)"
proof -
  show "sq_at (heap s @ [heap s ! A]) (length (heap s)) n"
    using assms by (intro wf_array_sq_at [of "heap s ! A"]) simp_all
  show "getitem (heap s @ [heap s ! A]) (length (heap s)) = entries_of (heap s ! A)"
    by (intro ext) (simp add: getitem_def entries_of_def)
qed




lemma factors_triangular_aux:
  fixes E :: "nat \<Rightarrow> nat \<Rightarrow> 'a::{monoid_add,one}"
  shows "unit_lower_triangular (mat_add (tril (matrix_of n E) (- 1)) (eye n))"
    and "upper_triangular (triu (matrix_of n E) 0)"
  by (simp_all add: unit_lower_triangular_def upper_triangular_def L_shape U_shape
        list_all_iff L_entry U_entry)

lemma cost_as_rule:
  assumes wf: "wf_array (heap s ! A)"
    and n: "shape0 (heap s ! A) = n" "shape1 (heap s ! A) = n"
  shows "opcount_rule s A = cost_upto n n (entries_of (heap s ! A))"
proof -
  note sq = sq_at_copy [OF wf n]
  have inner: "(\<Sum>j\<leftarrow>[i + 1..<n].
        if getitem (before_pair (heap s @ [heap s ! A]) (length (heap s)) n n i j)
             (length (heap s)) j i = 0
        then 0 else (\<Sum>k\<leftarrow>[i + 1..<n]. 2) + 1) =
      col_cost n i (entries_upto n i (entries_of (heap s ! A)))" for i
  proof -
    have e: "[i + 1..<n] = [Suc i..<n]" by simp
    show ?thesis
      unfolding col_cost_def e
    proof (rule arg_cong [where f = sum_list], rule map_cong [OF refl])
      fix j assume "j \<in> set [Suc i..<n]"
      then have j: "i < j" "j < n" by simp_all
      show "(if getitem (before_pair (heap s @ [heap s ! A]) (length (heap s)) n n i j)
                 (length (heap s)) j i = 0
             then 0 else (\<Sum>k\<leftarrow>[Suc i..<n]. 2) + 1) =
            row_cost n i j (entries_upto n i (entries_of (heap s ! A)))"
        by (simp add: before_pair_test(1) [OF sq(1) j] sq(2) row_cost_def sum_list_triv)
    qed
  qed
  have "opcount_rule s A =
      (\<Sum>i\<leftarrow>[0..<n]. \<Sum>j\<leftarrow>[i + 1..<n].
        if getitem (before_pair (heap s @ [heap s ! A]) (length (heap s)) n n i j)
             (length (heap s)) j i = 0
        then 0 else (\<Sum>k\<leftarrow>[i + 1..<n]. 2) + 1)"
    by (simp only: opcount_rule_def copy_def Let_def n prod.case)
  then show ?thesis by (simp only: inner cost_upto_def)
qed

lemma upper_triangular_entries:
  assumes "upper_triangular M" "shape0 M = n" "shape1 M = n"
  shows "\<forall>r<n. \<forall>c<r. entries_of M r c = 0"
  using assms by (auto simp: upper_triangular_def list_all_iff entries_of_def)

lemma trans_sym: "a = c \<Longrightarrow> b = c \<Longrightarrow> a = b"
  by simp

lemma eye_factor:
  fixes E :: "nat \<Rightarrow> nat \<Rightarrow> 'a::{monoid_add,one}"
  assumes "\<forall>r<n. \<forall>c<r. E r c = 0"
  shows "mat_add (tril (matrix_of n E) (- 1)) (eye n) = eye n"
    and "triu (matrix_of n E) 0 = matrix_of n E"
proof -
  have "mat_add (tril (matrix_of n E) (- 1)) (eye n) = matrix_of n (\<lambda>r c. if r = c then 1 else 0)"
    using assms by (intro matrix_of_eqI_wf) (simp_all add: L_shape L_entry)
  moreover have "eye n = matrix_of n (\<lambda>r c. if r = c then 1 else 0)"
    by (simp add: eye_def matrix_of_def)
  ultimately show "mat_add (tril (matrix_of n E) (- 1)) (eye n) = eye n" by (rule trans_sym)
  show "triu (matrix_of n E) 0 = matrix_of n E"
    using assms by (intro matrix_of_eqI_wf) (auto simp: U_shape U_entry)
qed

lemma ejemplo_valid:
  "0 < length (heap ejemplo)" "wf_array (heap ejemplo ! 0)"
  "shape0 (heap ejemplo ! 0) = shape1 (heap ejemplo ! 0)"
  by (simp_all add: ejemplo_def wf_array_def)

lemma ejemplo_pivote_nulo_valid:
  "0 < length (heap ejemplo_pivote_nulo)" "wf_array (heap ejemplo_pivote_nulo ! 0)"
  "shape0 (heap ejemplo_pivote_nulo ! 0) = shape1 (heap ejemplo_pivote_nulo ! 0)"
  by (simp_all add: ejemplo_pivote_nulo_def wf_array_def)

lemma ejemplo_triu_valid:
  "0 < length (heap ejemplo_triu)" "wf_array (heap ejemplo_triu ! 0)"
  "shape0 (heap ejemplo_triu ! 0) = shape1 (heap ejemplo_triu ! 0)"
  by (simp_all add: ejemplo_triu_def wf_array_def)

lemma caller_matrix_kept:
  assumes "A < length (heap s)"
  shows "heap (snd (elim_gaussiana s A)) ! A = heap s ! A"
proof -
  have "heap (snd (elim_gaussiana s A)) ! A =
        take (length (heap s)) (heap (snd (elim_gaussiana s A))) ! A"
    using assms by simp
  then show ?thesis using heap_after_call [of s A] by simp
qed

lemma no_zero_pivot_diagonal:
  assumes A: "A < length (heap s)" and wf: "wf_array (heap s ! A)"
    and n: "shape0 (heap s ! A) = n" "shape1 (heap s ! A) = n"
    and r: "fst (elim_gaussiana s A) = Some (L, U, c)"
    and d: "\<forall>i<n. rows U ! i ! i \<noteq> 0"
  shows "no_zero_pivot s A"
proof -
  note cp = sq_at_copy [OF wf n]
  have U: "U = triu (matrix_of n (entries_upto n n (entries_of (heap s ! A)))) 0"
    using r by (simp add: elim_gaussiana_value [OF A wf n])
  have "getitem (before_pair (heap s @ [heap s ! A]) (length (heap s)) n n i j)
          (length (heap s)) i i \<noteq> 0" if "i < j" "j < n" for i j
  proof -
    have i: "i < n" using that by simp
    have "rows U ! i ! i = entries_upto n n (entries_of (heap s ! A)) i i"
      using i by (simp add: U U_entry)
    then have "entries_upto n i (entries_of (heap s ! A)) i i = rows U ! i ! i"
      by (simp add: final_diagonal [OF i])
    then have "entries_upto n i (entries_of (heap s ! A)) i i \<noteq> 0"
      using d i by simp
    then show ?thesis by (simp add: before_pair_test(2) [OF cp(1) that] cp(2))
  qed
  then show ?thesis
    using n by (simp add: no_zero_pivot_def copy_def Let_def list_all_iff)
qed

text \<open>
  The division is not guarded: whatever the arithmetic, when a zero pivot is used the
  quotient by zero is the multiplier the call stores, and \<open>L\<close> holds it.
\<close>

lemma unguarded_division:
  assumes A: "A < length (heap s)" and wf: "wf_array (heap s ! A)"
    and sq: "shape0 (heap s ! A) = shape1 (heap s ! A)"
    and z: "zero_pivot_at s A i j"
  shows "\<exists>L U c s'. elim_gaussiana s A = (Some (L, U, c), s') \<and> stdout s' = stdout s \<and>
     (\<exists>e. e \<noteq> 0 \<and> rows L ! j ! i = e / 0 + 0)"
proof -
  define n where "n = shape1 (heap s ! A)"
  have n: "shape0 (heap s ! A) = n" "shape1 (heap s ! A) = n"
    using sq by (simp_all add: n_def)
  define E where "E = entries_upto n i (entries_of (heap s ! A))"
  note c = sq_at_copy [OF wf n]
  have ij: "i < j" "j < n" and
    t: "getitem (before_pair (heap s @ [heap s ! A]) (length (heap s)) n n i j)
          (length (heap s)) j i \<noteq> 0"
       "getitem (before_pair (heap s @ [heap s ! A]) (length (heap s)) n n i j)
          (length (heap s)) i i = 0"
    using z n by (simp_all add: zero_pivot_at_def copy_def Let_def)
  have e: "E j i \<noteq> 0" and p: "E i i = 0"
    using t by (simp_all add: before_pair_test [OF c(1) ij] c(2) E_def)
  have "entries_upto n n (entries_of (heap s ! A)) j i = E j i / 0"
    using final_multiplier [OF ij, of "entries_of (heap s ! A)"] e p by (simp add: E_def)
  then have "rows (mat_add (tril (matrix_of n (entries_upto n n (entries_of (heap s ! A))))
        (- 1)) (eye n)) ! j ! i = E j i / 0 + 0"
    using ij by (simp add: L_entry)
  then show ?thesis
    using e by (auto simp: elim_gaussiana_value [OF A wf n])
qed

section \<open>A zero pivot in IEEE arithmetic\<close>










section \<open>The matrix of \<open>main\<close>\<close>

lemma main_valid:
  "0 < length (matriz_main 7 :: rat heap)"
  "wf_array ((matriz_main 7 :: rat heap) ! 0)"
  "shape0 ((matriz_main 7 :: rat heap) ! 0) = 7"
  "shape1 ((matriz_main 7 :: rat heap) ! 0) = 7"
  by code_simp+

lemma main_B:
  "(matriz_main 7 :: rat heap) ! 0 =
     \<lparr>shape0 = 7, shape1 = 7, rows =
       [[1, 0, 0, 0, 0, 0, 1], [- 1, 1, 0, 0, 0, 0, 1], [- 1, - 1, 1, 0, 0, 0, 1],
        [- 1, - 1, - 1, 1, 0, 0, 1], [- 1, - 1, - 1, - 1, 1, 0, 1],
        [- 1, - 1, - 1, - 1, - 1, 1, 1], [- 1, - 1, - 1, - 1, - 1, - 1, 1]]\<rparr>"
  by code_simp

lemma main_factors:
  "fst (elim_gaussiana \<lparr>heap = matriz_main 7 :: rat heap, stdout = []\<rparr> 0) =
     Some (\<lparr>shape0 = 7, shape1 = 7, rows =
             [[1, 0, 0, 0, 0, 0, 0], [- 1, 1, 0, 0, 0, 0, 0], [- 1, - 1, 1, 0, 0, 0, 0],
              [- 1, - 1, - 1, 1, 0, 0, 0], [- 1, - 1, - 1, - 1, 1, 0, 0],
              [- 1, - 1, - 1, - 1, - 1, 1, 0], [- 1, - 1, - 1, - 1, - 1, - 1, 1]]\<rparr>,
           \<lparr>shape0 = 7, shape1 = 7, rows =
             [[1, 0, 0, 0, 0, 0, 1], [0, 1, 0, 0, 0, 0, 2], [0, 0, 1, 0, 0, 0, 4],
              [0, 0, 0, 1, 0, 0, 8], [0, 0, 0, 0, 1, 0, 16], [0, 0, 0, 0, 0, 1, 32],
              [0, 0, 0, 0, 0, 0, 64]]\<rparr>,
           203)"
  by code_simp

lemma main_product:
  "matmul \<lparr>shape0 = 7, shape1 = 7, rows =
             [[1, 0, 0, 0, 0, 0, 0], [- 1, 1, 0, 0, 0, 0, 0], [- 1, - 1, 1, 0, 0, 0, 0],
              [- 1, - 1, - 1, 1, 0, 0, 0], [- 1, - 1, - 1, - 1, 1, 0, 0],
              [- 1, - 1, - 1, - 1, - 1, 1, 0], [- 1, - 1, - 1, - 1, - 1, - 1, 1::rat]]\<rparr>
          \<lparr>shape0 = 7, shape1 = 7, rows =
             [[1, 0, 0, 0, 0, 0, 1], [0, 1, 0, 0, 0, 0, 2], [0, 0, 1, 0, 0, 0, 4],
              [0, 0, 0, 1, 0, 0, 8], [0, 0, 0, 0, 1, 0, 16], [0, 0, 0, 0, 0, 1, 32],
              [0, 0, 0, 0, 0, 0, 64]]\<rparr> =
     \<lparr>shape0 = 7, shape1 = 7, rows =
       [[1, 0, 0, 0, 0, 0, 1], [- 1, 1, 0, 0, 0, 0, 1], [- 1, - 1, 1, 0, 0, 0, 1],
        [- 1, - 1, - 1, 1, 0, 0, 1], [- 1, - 1, - 1, - 1, 1, 0, 1],
        [- 1, - 1, - 1, - 1, - 1, 1, 1], [- 1, - 1, - 1, - 1, - 1, - 1, 1]]\<rparr>"
  by (simp add: matmul_def upt_rec [of 0] upt_rec [of "Suc _"] eval_nat_numeral)

lemma main_difference:
  "np_max (col_abs_sums (mat_sub
     \<lparr>shape0 = 7, shape1 = 7, rows =
       [[1, 0, 0, 0, 0, 0, 1], [- 1, 1, 0, 0, 0, 0, 1], [- 1, - 1, 1, 0, 0, 0, 1],
        [- 1, - 1, - 1, 1, 0, 0, 1], [- 1, - 1, - 1, - 1, 1, 0, 1],
        [- 1, - 1, - 1, - 1, - 1, 1, 1], [- 1, - 1, - 1, - 1, - 1, - 1, 1::rat]]\<rparr>
     \<lparr>shape0 = 7, shape1 = 7, rows =
       [[1, 0, 0, 0, 0, 0, 1], [- 1, 1, 0, 0, 0, 0, 1], [- 1, - 1, 1, 0, 0, 0, 1],
        [- 1, - 1, - 1, 1, 0, 0, 1], [- 1, - 1, - 1, - 1, 1, 0, 1],
        [- 1, - 1, - 1, - 1, - 1, 1, 1], [- 1, - 1, - 1, - 1, - 1, - 1, 1]]\<rparr>)) = Inr 0"
  by code_simp

lemma main_norm:
  "np_max (row_abs_sums \<lparr>shape0 = 7, shape1 = 7, rows =
             [[1, 0, 0, 0, 0, 0, 1], [0, 1, 0, 0, 0, 0, 2], [0, 0, 1, 0, 0, 0, 4],
              [0, 0, 0, 1, 0, 0, 8], [0, 0, 0, 0, 1, 0, 16], [0, 0, 0, 0, 0, 1, 32],
              [0, 0, 0, 0, 0, 0, 64::rat]]\<rparr>) = Inr 64"
  by code_simp

lemma main_diagonal:
  "\<forall>i<7. rows \<lparr>shape0 = 7, shape1 = 7, rows =
             [[1, 0, 0, 0, 0, 0, 1], [0, 1, 0, 0, 0, 0, 2], [0, 0, 1, 0, 0, 0, 4],
              [0, 0, 0, 1, 0, 0, 8], [0, 0, 0, 0, 1, 0, 16], [0, 0, 0, 0, 0, 1, 32],
              [0, 0, 0, 0, 0, 0, 64::rat]]\<rparr> ! i ! i \<noteq> 0"
proof -
  have "list_all (\<lambda>i. rows \<lparr>shape0 = 7, shape1 = 7, rows =
             [[1, 0, 0, 0, 0, 0, 1], [0, 1, 0, 0, 0, 0, 2], [0, 0, 1, 0, 0, 0, 4],
              [0, 0, 0, 1, 0, 0, 8], [0, 0, 0, 0, 1, 0, 16], [0, 0, 0, 0, 0, 1, 32],
              [0, 0, 0, 0, 0, 0, 64::rat]]\<rparr> ! i ! i \<noteq> 0) [0..<7]"
    by code_simp
  then show ?thesis by (simp add: list_all_iff)
qed

section \<open>The properties\<close>



text \<open>
  C2. For a square matrix the returned \<open>L\<close> is unit lower triangular (ones on the
  diagonal, zeros above it) and the returned \<open>U\<close> is upper triangular (zeros below the
  diagonal). Of the arithmetic only \<open>0 + x = x\<close> is used, so this holds whatever the
  divisions yield.
\<close>

theorem factors_triangular:
  fixes s :: "'a::{monoid_add,one,minus,times,inverse} state"
  assumes "A < length (heap s)" and "wf_array (heap s ! A)"
    and "shape0 (heap s ! A) = shape1 (heap s ! A)"
  shows "\<exists>L U c. fst (elim_gaussiana s A) = Some (L, U, c) \<and>
           unit_lower_triangular L \<and> upper_triangular U"
  using assms(3)
  by (simp add: elim_gaussiana_value [OF assms(1,2) _ refl] factors_triangular_aux)

theorem factors_triangular_witness:
  "(\<exists>L U c. fst (elim_gaussiana ejemplo 0) = Some (L, U, c) \<and>
     unit_lower_triangular L \<and> upper_triangular U) \<and>
   (\<exists>L U c. fst (elim_gaussiana ejemplo_pivote_nulo 0) = Some (L, U, c) \<and>
     unit_lower_triangular L \<and> upper_triangular U)"
  using factors_triangular [OF ejemplo_valid] factors_triangular [OF ejemplo_pivote_nulo_valid]
  by (rule conjI)

text \<open>
  C3. For a matrix that is not square \<open>elim_gaussiana\<close> prints
  \<open>Matriz no cuadrada\<close> and returns \<open>None\<close>: no \<open>L\<close>, no \<open>U\<close>, no count. The store
  gains the copy made at entry and nothing else changes.
\<close>

theorem nonsquare_rejected:
  assumes "shape0 (heap s ! A) \<noteq> shape1 (heap s ! A)"
  shows "elim_gaussiana s A =
    (None, s\<lparr>heap := heap s @ [heap s ! A], stdout := stdout s @ [''Matriz no cuadrada'']\<rparr>)"
  using assms by (rule elim_gaussiana_nonsquare)

theorem nonsquare_rejected_witness:
  "shape0 (heap ejemplo_rect ! 0) \<noteq> shape1 (heap ejemplo_rect ! 0) \<and>
   elim_gaussiana ejemplo_rect 0 =
     (None, \<lparr>heap = [\<lparr>shape0 = 2, shape1 = 3, rows = [[0, 1, 2], [1, 1, 3]]\<rparr>,
                     \<lparr>shape0 = 2, shape1 = 3, rows = [[0, 1, 2], [1, 1, 3]]\<rparr>],
             stdout = [''Matriz no cuadrada'']\<rparr>)"
proof -
  have n: "shape0 (heap ejemplo_rect ! 0) \<noteq> shape1 (heap ejemplo_rect ! 0)"
    by (simp add: ejemplo_rect_def)
  show ?thesis using n nonsquare_rejected [OF n] by (simp add: ejemplo_rect_def)
qed

text \<open>
  C4. A call never modifies the caller's matrix, square or not: after the call the
  object \<open>A\<close> is what it was, and so is every object that existed before the call; the
  store has grown by exactly one object, the working copy.
\<close>

theorem caller_matrix_unchanged:
  assumes "A < length (heap s)"
  shows "heap (snd (elim_gaussiana s A)) ! A = heap s ! A \<and>
         take (length (heap s)) (heap (snd (elim_gaussiana s A))) = heap s \<and>
         length (heap (snd (elim_gaussiana s A))) = Suc (length (heap s))"
  using caller_matrix_kept [OF assms] heap_after_call [of s A] by simp

theorem caller_matrix_unchanged_witness:
  "heap (snd (elim_gaussiana ejemplo 0)) ! 0 = heap ejemplo ! 0 \<and>
   heap (snd (elim_gaussiana ejemplo_rect 0)) ! 0 = heap ejemplo_rect ! 0"
proof -
  have r: "0 < length (heap ejemplo_rect)" by (simp add: ejemplo_rect_def)
  show ?thesis
    using caller_matrix_unchanged [OF ejemplo_valid(1)] caller_matrix_unchanged [OF r]
    by simp
qed

text \<open>
  C5. For a square matrix the returned count follows the rule of the specification: a
  pair \<open>(i, j)\<close> whose working entry \<open>Ac[j][i]\<close> is zero is skipped (store and count
  are left as they are), any other pair adds two for each column \<open>k\<close> from \<open>i + 1\<close> to
  \<open>n - 1\<close> and one more.
\<close>

theorem opcount_follows_rule:
  assumes "A < length (heap s)" and "wf_array (heap s ! A)"
    and "shape0 (heap s ! A) = shape1 (heap s ! A)"
  shows "(\<exists>L U c. fst (elim_gaussiana s A) = Some (L, U, c) \<and> c = opcount_rule s A) \<and>
         (getitem h Ac j i = 0 \<longrightarrow> body_j Ac n i j (h, k) = (h, k)) \<and>
         (getitem h Ac j i \<noteq> 0 \<longrightarrow>
            snd (body_j Ac n i j (h, k)) = k + 2 * length [i + 1..<n] + 1)"
proof (intro conjI)
  show "\<exists>L U c. fst (elim_gaussiana s A) = Some (L, U, c) \<and> c = opcount_rule s A"
    using assms(3)
    by (simp add: elim_gaussiana_value [OF assms(1,2) _ refl] cost_as_rule [OF assms(2) _ refl])
  show "getitem h Ac j i = 0 \<longrightarrow> body_j Ac n i j (h, k) = (h, k)"
    by simp
  show "getitem h Ac j i \<noteq> 0 \<longrightarrow>
            snd (body_j Ac n i j (h, k)) = k + 2 * length [i + 1..<n] + 1"
    using snd_fold_body_k [of Ac i j "getitem h Ac j i / getitem h Ac i i" "[i + 1..<n]" h k]
    by (simp add: Let_def split_beta)
qed

theorem opcount_follows_rule_witness:
  "opcount_rule ejemplo 0 = 13 \<and>
   (\<exists>L U. fst (elim_gaussiana ejemplo 0) = Some (L, U, 13)) \<and>
   snd (body_j 0 3 0 1 (heap ejemplo, 0)) = 5 \<and>
   body_j 0 3 1 2 (heap ejemplo_triu, 7) = (heap ejemplo_triu, 7)"
proof -
  have r: "opcount_rule ejemplo 0 = 13" by code_simp
  have z: "getitem (heap ejemplo_triu) 0 2 1 = 0" "getitem (heap ejemplo) 0 1 0 \<noteq> 0"
    by (simp_all add: ejemplo_triu_def ejemplo_def getitem_def)
  show ?thesis
    using r z opcount_follows_rule [OF ejemplo_valid, of "heap ejemplo_triu" 0 2 1 3 7]
      opcount_follows_rule [OF ejemplo_valid, of "heap ejemplo" 0 1 0 3 0]
    by auto
qed

text \<open>
  C6. \<open>elim_gaussiana\<close> is deterministic: its result depends on the contents of the
  matrix only, not on the store around it, and a second call on the same matrix after
  the first returns the same \<open>L\<close>, \<open>U\<close> and count.
\<close>

theorem elim_gaussiana_deterministic:
  assumes "A < length (heap s)" and "wf_array (heap s ! A)"
  shows "(A' < length (heap s') \<and> heap s' ! A' = heap s ! A \<longrightarrow>
            fst (elim_gaussiana s' A') = fst (elim_gaussiana s A)) \<and>
         fst (elim_gaussiana (snd (elim_gaussiana s A)) A) = fst (elim_gaussiana s A)"
proof -
  have same: "fst (elim_gaussiana t B) = fst (elim_gaussiana s A)"
    if "B < length (heap t)" "heap t ! B = heap s ! A" for t :: "'a state" and B
  proof (cases "shape0 (heap s ! A) = shape1 (heap s ! A)")
    case True
    have wt: "wf_array (heap t ! B)" and st: "shape0 (heap t ! B) = shape1 (heap s ! A)"
      "shape1 (heap t ! B) = shape1 (heap s ! A)"
      using that(2) assms(2) True by simp_all
    show ?thesis
      unfolding elim_gaussiana_value [OF that(1) wt st]
        elim_gaussiana_value [OF assms(1,2) True refl]
      by (simp add: that(2))
  next
    case False
    then show ?thesis by (simp add: elim_gaussiana_nonsquare that(2))
  qed
  have "A < length (heap (snd (elim_gaussiana s A)))"
    using heap_after_call [of s A] assms(1) by simp
  moreover have "heap (snd (elim_gaussiana s A)) ! A = heap s ! A"
    using assms(1) by (rule caller_matrix_kept)
  ultimately have "fst (elim_gaussiana (snd (elim_gaussiana s A)) A) =
      fst (elim_gaussiana s A)"
    by (rule same)
  then show ?thesis using same [of A' s'] by simp
qed

theorem elim_gaussiana_deterministic_witness:
  "fst (elim_gaussiana (snd (elim_gaussiana ejemplo 0)) 0) = fst (elim_gaussiana ejemplo 0) \<and>
   fst (elim_gaussiana \<lparr>heap = heap ejemplo_rect @ heap ejemplo, stdout = [''x'']\<rparr> 1) =
     fst (elim_gaussiana ejemplo 0)"
proof -
  have h: "1 < length (heap \<lparr>heap = heap ejemplo_rect @ heap ejemplo, stdout = [''x'']\<rparr>) \<and>
      heap \<lparr>heap = heap ejemplo_rect @ heap ejemplo, stdout = [''x'']\<rparr> ! 1 = heap ejemplo ! 0"
    by (simp add: ejemplo_def ejemplo_rect_def)
  show ?thesis
    using h elim_gaussiana_deterministic [OF ejemplo_valid(1,2),
        of 1 "\<lparr>heap = heap ejemplo_rect @ heap ejemplo, stdout = [''x'']\<rparr>"]
    by blast
qed

text \<open>
  C7. For the matrix \<open>B\<close> of \<open>main\<close> (order 7, the identity minus the strictly lower
  triangle of ones, last column set to one) the elimination meets no zero pivot,
  \<open>L @ U\<close> is \<open>B\<close>, the test \<open>B=LU?\<close> succeeds, the count is 203 and the infinity norm
  of \<open>U\<close> is 64. The entries are rationals; every value that occurs is an integer of
  absolute value at most 64.
\<close>

theorem main_report:
  "no_zero_pivot \<lparr>heap = matriz_main 7 :: rat heap, stdout = []\<rparr> 0 \<and>
   (main :: error + rat report) =
     Inr \<lparr>matriz_B = \<lparr>shape0 = 7, shape1 = 7, rows =
             [[1, 0, 0, 0, 0, 0, 1], [- 1, 1, 0, 0, 0, 0, 1], [- 1, - 1, 1, 0, 0, 0, 1],
              [- 1, - 1, - 1, 1, 0, 0, 1], [- 1, - 1, - 1, - 1, 1, 0, 1],
              [- 1, - 1, - 1, - 1, - 1, 1, 1], [- 1, - 1, - 1, - 1, - 1, - 1, 1]]\<rparr>,
          matriz_L = \<lparr>shape0 = 7, shape1 = 7, rows =
             [[1, 0, 0, 0, 0, 0, 0], [- 1, 1, 0, 0, 0, 0, 0], [- 1, - 1, 1, 0, 0, 0, 0],
              [- 1, - 1, - 1, 1, 0, 0, 0], [- 1, - 1, - 1, - 1, 1, 0, 0],
              [- 1, - 1, - 1, - 1, - 1, 1, 0], [- 1, - 1, - 1, - 1, - 1, - 1, 1]]\<rparr>,
          matriz_U = \<lparr>shape0 = 7, shape1 = 7, rows =
             [[1, 0, 0, 0, 0, 0, 1], [0, 1, 0, 0, 0, 0, 2], [0, 0, 1, 0, 0, 0, 4],
              [0, 0, 0, 1, 0, 0, 8], [0, 0, 0, 0, 1, 0, 16], [0, 0, 0, 0, 0, 1, 32],
              [0, 0, 0, 0, 0, 0, 64]]\<rparr>,
          cantidad = 203, b_es_lu = True, norma_inf_U = 64\<rparr> \<and>
   (\<exists>rep. (main :: error + rat report) = Inr rep \<and>
      matmul (matriz_L rep) (matriz_U rep) = matriz_B rep)"
proof -
  define s0 :: "rat state" where "s0 = \<lparr>heap = matriz_main 7, stdout = []\<rparr>"
  have v: "0 < length (heap s0)" "wf_array (heap s0 ! 0)"
    "shape0 (heap s0 ! 0) = 7" "shape1 (heap s0 ! 0) = 7"
    using main_valid by (simp_all add: s0_def)
  note f = main_factors [folded s0_def]
  have p: "no_zero_pivot s0 0"
    using v f main_diagonal by (rule no_zero_pivot_diagonal)
  have e: "elim_gaussiana s0 0 = (fst (elim_gaussiana s0 0), snd (elim_gaussiana s0 0))"
    by simp
  have k: "heap (snd (elim_gaussiana s0 0)) ! 0 = heap s0 ! 0"
    using v(1) by (rule caller_matrix_kept)
  have b: "heap s0 ! 0 = matriz_main 7 ! 0" by (simp add: s0_def)
  have m: "(main :: error + rat report) =
     Inr \<lparr>matriz_B = \<lparr>shape0 = 7, shape1 = 7, rows =
             [[1, 0, 0, 0, 0, 0, 1], [- 1, 1, 0, 0, 0, 0, 1], [- 1, - 1, 1, 0, 0, 0, 1],
              [- 1, - 1, - 1, 1, 0, 0, 1], [- 1, - 1, - 1, - 1, 1, 0, 1],
              [- 1, - 1, - 1, - 1, - 1, 1, 1], [- 1, - 1, - 1, - 1, - 1, - 1, 1]]\<rparr>,
          matriz_L = \<lparr>shape0 = 7, shape1 = 7, rows =
             [[1, 0, 0, 0, 0, 0, 0], [- 1, 1, 0, 0, 0, 0, 0], [- 1, - 1, 1, 0, 0, 0, 0],
              [- 1, - 1, - 1, 1, 0, 0, 0], [- 1, - 1, - 1, - 1, 1, 0, 0],
              [- 1, - 1, - 1, - 1, - 1, 1, 0], [- 1, - 1, - 1, - 1, - 1, - 1, 1]]\<rparr>,
          matriz_U = \<lparr>shape0 = 7, shape1 = 7, rows =
             [[1, 0, 0, 0, 0, 0, 1], [0, 1, 0, 0, 0, 0, 2], [0, 0, 1, 0, 0, 0, 4],
              [0, 0, 0, 1, 0, 0, 8], [0, 0, 0, 0, 1, 0, 16], [0, 0, 0, 0, 0, 1, 32],
              [0, 0, 0, 0, 0, 0, 64]]\<rparr>,
          cantidad = 203, b_es_lu = True, norma_inf_U = 64\<rparr>"
    unfolding main_def Let_def s0_def [symmetric]
    apply (subst e)
    apply (simp only: f k b main_B main_product main_difference main_norm
        prod.case option.case sum.case allclose0_def)
    apply simp
    done
  have x: "\<exists>rep. (main :: error + rat report) = Inr rep \<and>
      matmul (matriz_L rep) (matriz_U rep) = matriz_B rep"
    unfolding m using main_product by simp
  show ?thesis
    using p [unfolded s0_def] m x by (intro conjI)
qed

theorem main_report_witness:
  "\<exists>rep. (main :: error + rat report) = Inr rep \<and>
      matmul (matriz_L rep) (matriz_U rep) = matriz_B rep"
  using main_report by (elim conjE)



text \<open>
  C9. For a square matrix that is already upper triangular (every entry below the
  diagonal is zero) \<open>elim_gaussiana\<close> does no elimination: it returns the identity as
  \<open>L\<close>, the matrix itself as \<open>U\<close> and the count \<open>0\<close>, and the working copy is left
  equal to the matrix.
\<close>

theorem upper_triangular_input:
  fixes s :: "'a::{monoid_add,one,minus,times,inverse} state"
  assumes "A < length (heap s)" and "wf_array (heap s ! A)"
    and "shape0 (heap s ! A) = shape1 (heap s ! A)"
    and "upper_triangular (heap s ! A)"
  shows "elim_gaussiana s A =
     (Some (eye (shape0 (heap s ! A)), heap s ! A, 0), s\<lparr>heap := heap s @ [heap s ! A]\<rparr>)"
proof -
  define n where "n = shape1 (heap s ! A)"
  have n: "shape0 (heap s ! A) = n" "shape1 (heap s ! A) = n"
    using assms(3) by (simp_all add: n_def)
  note z = upper_triangular_entries [OF assms(4) n]
  have e: "entries_upto n n (entries_of (heap s ! A)) = entries_of (heap s ! A)"
    using z by (rule entries_upto_upper)
  have c: "cost_upto n n (entries_of (heap s ! A)) = 0"
    using z by (rule cost_upto_upper)
  have L: "mat_add (tril (matrix_of n (entries_of (heap s ! A))) (- 1)) (eye n) = eye n"
    using z by (rule eye_factor(1))
  have U: "triu (matrix_of n (entries_of (heap s ! A))) 0 = heap s ! A"
    using eye_factor(2) [OF z] matrix_of_entries [OF assms(2) n] by simp
  show ?thesis
    unfolding elim_gaussiana_value [OF assms(1,2) n] e c L U
    by (simp add: n matrix_of_entries [OF assms(2) n])
qed

theorem upper_triangular_input_witness:
  "upper_triangular (heap ejemplo_triu ! 0) \<and>
   fst (elim_gaussiana ejemplo_triu 0) = Some (eye 3, heap ejemplo_triu ! 0, 0)"
proof -
  have u: "upper_triangular (heap ejemplo_triu ! 0)" by code_simp
  have n: "shape0 (heap ejemplo_triu ! 0) = 3" by (simp add: ejemplo_triu_def)
  show ?thesis
    using u upper_triangular_input [OF ejemplo_triu_valid u] by (simp add: n)
qed



end
